theory Spec2Isabelle
  imports Complex_Main "HOL-Library.Word" "HOL-Library.Multiset"
begin

unbundle bit_operations_syntax

section \<open>Host values\<close>

text \<open>
  The library is JavaScript. The numbers passed as lengths, offsets, bounds and elements
  are modelled as \<open>int\<close> (safe integers, where the arithmetic of the source is exact);
  an optional argument is an \<open>option\<close>, \<open>None\<close> for \<open>undefined\<close>. Only a property
  key can be any number (see \<open>numkey\<close> below). Bytes are \<open>8 word\<close>, the operands of
  \<open>&\<close>, \<open>|\<close>, \<open>~\<close> and \<open>>>\<close> are \<open>32 word\<close> (ToInt32). An exception is a
  value of type \<open>error\<close>.
\<close>

type_synonym byte = "8 word"
type_synonym int32 = "32 word"

datatype error = RangeError | TypeError

text \<open>An element read or written through an index: a number, or \<open>undefined\<close>.\<close>

datatype jsval = Number int | Undefined

text \<open>ToInt32, as applied by the bitwise operators: \<open>undefined\<close> becomes NaN, then 0.\<close>

fun ToInt32 :: "jsval \<Rightarrow> int32" where
  "ToInt32 (Number n) = word_of_int n"
| "ToInt32 Undefined = 0"

text \<open>\<open>a % b\<close>: the remainder takes the sign of the dividend.\<close>

definition js_rem :: "int \<Rightarrow> int \<Rightarrow> int" where
  "js_rem a b = sgn a * (\<bar>a\<bar> mod \<bar>b\<bar>)"

text \<open>\<open>a >> n\<close>: sign-propagating shift; only the low five bits of the count are used.\<close>

definition js_shr :: "int32 \<Rightarrow> int \<Rightarrow> int32" where
  "js_shr a n = signed_drop_bit (nat (n mod 32)) a"

section \<open>BitDataView\<close>

text \<open>
  An ArrayBuffer is its list of bytes. \<open>DataView.getUint8\<close> and \<open>setUint8\<close> raise a
  RangeError outside the buffer; \<open>setUint8\<close> stores the value modulo 256.
\<close>

type_synonym arraybuffer = "byte list"

definition getUint8 :: "arraybuffer \<Rightarrow> int \<Rightarrow> error + byte" where
  "getUint8 buf byteOffset =
     (if 0 \<le> byteOffset \<and> byteOffset < int (length buf)
      then Inr (buf ! nat byteOffset) else Inl RangeError)"

definition setUint8 :: "arraybuffer \<Rightarrow> int \<Rightarrow> int32 \<Rightarrow> error + arraybuffer" where
  "setUint8 buf byteOffset v =
     (if 0 \<le> byteOffset \<and> byteOffset < int (length buf)
      then Inr (buf[nat byteOffset := ucast v]) else Inl RangeError)"

definition getUint1 :: "arraybuffer \<Rightarrow> int \<Rightarrow> error + int" where
  "getUint1 buf bitOffset =
     (let byteOffset = bitOffset div 8;
          bitMask = js_shr 0x80 (js_rem bitOffset 8)
      in case getUint8 buf byteOffset of
           Inl e \<Rightarrow> Inl e
         | Inr b \<Rightarrow> Inr (if ucast b AND bitMask \<noteq> 0 then 1 else 0))"

definition setUint1 :: "arraybuffer \<Rightarrow> int \<Rightarrow> jsval \<Rightarrow> error + arraybuffer" where
  "setUint1 buf bitOffset v =
     (let byteOffset = bitOffset div 8;
          bitMask = js_shr 0x80 (js_rem bitOffset 8)
      in if ToInt32 v AND 1 \<noteq> 0
         then (case getUint8 buf byteOffset of
                 Inl e \<Rightarrow> Inl e
               | Inr b \<Rightarrow> setUint8 buf byteOffset (ucast b OR bitMask))
         else (case getUint8 buf byteOffset of
                 Inl e \<Rightarrow> Inl e
               | Inr b \<Rightarrow> setUint8 buf byteOffset (ucast b AND NOT bitMask)))"

text \<open>
  The addressing rule in the words of the specification: byte \<open>floor (bitOffset / 8)\<close>,
  mask \<open>0x80 >> (bitOffset mod 8)\<close>, that is bit \<open>7 - bitOffset mod 8\<close> of the byte.
\<close>

definition spec_byteIndex :: "int \<Rightarrow> nat" where
  "spec_byteIndex bitOffset = nat (bitOffset div 8)"

definition spec_bitMask :: "int \<Rightarrow> byte" where
  "spec_bitMask bitOffset = drop_bit (nat (bitOffset mod 8)) 0x80"

definition lowbit :: "jsval \<Rightarrow> bool" where
  "lowbit v = (ToInt32 v AND 1 \<noteq> 0)"

section \<open>Uint1Array\<close>

text \<open>
  The heap holds the ArrayBuffers; an ArrayBuffer reference is its position in the heap.
  A \<open>Uint1Array\<close> object has the fields \<open>bitOffset\<close>, \<open>bitLength\<close> and \<open>internal\<close>,
  the BitDataView, which spans the whole of the buffer it was built on and is represented by
  that buffer's reference. An operation that can write or raise takes the heap and returns its
  outcome together with the heap it leaves behind.
\<close>

type_synonym heap = "arraybuffer list"

record uint1array =
  bitOffset :: int
  bitLength :: int
  internal :: nat

text \<open>
  The shapes of the constructor's first argument that the dispatch tells apart: nothing, a
  number, an ArrayBuffer, an array-like or an iterable of elements, and a \<open>Uint1Array\<close>
  (the Proxy the constructor returns).
\<close>

datatype source =
    NoArg
  | Length int
  | ArrayBuffer nat
  | ArrayLike "jsval list"
  | Iterable "jsval list"
  | Vector uint1array

text \<open>\<open>Math.ceil(n / 8)\<close> for an integer \<open>n\<close>.\<close>

definition ceil8 :: "int \<Rightarrow> int" where
  "ceil8 n = - ((- n) div 8)"

definition byteOffset :: "uint1array \<Rightarrow> int" where
  "byteOffset v = bitOffset v div 8"

definition byteLength :: "uint1array \<Rightarrow> int" where
  "byteLength v = ceil8 (bitOffset v + bitLength v) - bitOffset v div 8"

definition length_of :: "uint1array \<Rightarrow> int" where
  "length_of v = bitLength v"

text \<open>\<open>new ArrayBuffer(n)\<close>: a fresh buffer of \<open>n\<close> zero bytes.\<close>

definition new_ArrayBuffer :: "int \<Rightarrow> heap \<Rightarrow> nat \<times> heap" where
  "new_ArrayBuffer n h = (length h, h @ [replicate (nat n) 0])"

text \<open>
  \<open>new BitDataView(x)\<close> runs the \<open>DataView\<close> constructor, which raises a TypeError
  unless \<open>x\<close> is an ArrayBuffer.
\<close>

fun new_BitDataView :: "source \<Rightarrow> error + nat" where
  "new_BitDataView (ArrayBuffer a) = Inr a"
| "new_BitDataView _ = Inl TypeError"

definition view_setUint1 :: "nat \<Rightarrow> int \<Rightarrow> jsval \<Rightarrow> heap \<Rightarrow> (error + unit) \<times> heap" where
  "view_setUint1 a i v h =
     (case setUint1 (h ! a) i v of
        Inl e \<Rightarrow> (Inl e, h)
      | Inr buf \<Rightarrow> (Inr (), h[a := buf]))"

text \<open>First branch of the constructor: \<open>typeof source !== 'object'\<close>.\<close>

definition from_length :: "int \<Rightarrow> heap \<Rightarrow> (error + uint1array) \<times> heap" where
  "from_length n h =
     (if n < 0 then (Inl RangeError, h)
      else (let (a, h') = new_ArrayBuffer (ceil8 n) h
            in (Inr \<lparr>bitOffset = 0, bitLength = n, internal = a\<rparr>, h')))"

text \<open>
  Second branch: \<open>'byteLength' in source\<close>. \<open>srcByteLength\<close> is \<open>source.byteLength\<close>.
  The four checks come before the view is built.
\<close>

definition from_buffer ::
  "source \<Rightarrow> int \<Rightarrow> int option \<Rightarrow> int option \<Rightarrow> heap \<Rightarrow> (error + uint1array) \<times> heap" where
  "from_buffer src srcByteLength offset len h =
     (let offset = (case offset of None \<Rightarrow> 0 | Some x \<Rightarrow> x);
          len = (case len of None \<Rightarrow> srcByteLength * 8 - offset | Some x \<Rightarrow> x)
      in if offset < 0 then (Inl RangeError, h)
         else if len < 0 then (Inl RangeError, h)
         else if offset > srcByteLength * 8 then (Inl RangeError, h)
         else if len + offset > srcByteLength * 8 then (Inl RangeError, h)
         else (case new_BitDataView src of
                 Inl e \<Rightarrow> (Inl e, h)
               | Inr a \<Rightarrow> (Inr \<lparr>bitOffset = offset, bitLength = len, internal = a\<rparr>, h)))"

text \<open>Third branch: the loop \<open>for (i = 0; i < source.length; i++) internal.setUint1(i, source[i])\<close>.\<close>

fun init_loop :: "nat \<Rightarrow> int \<Rightarrow> jsval list \<Rightarrow> heap \<Rightarrow> (error + unit) \<times> heap" where
  "init_loop a i [] h = (Inr (), h)"
| "init_loop a i (x # xs) h =
     (case view_setUint1 a i x h of
        (Inl e, h') \<Rightarrow> (Inl e, h')
      | (Inr _, h') \<Rightarrow> init_loop a (i + 1) xs h')"

definition from_items :: "jsval list \<Rightarrow> heap \<Rightarrow> (error + uint1array) \<times> heap" where
  "from_items xs h =
     (let (a, h1) = new_ArrayBuffer (ceil8 (int (length xs))) h
      in case init_loop a 0 xs h1 of
           (Inl e, h2) \<Rightarrow> (Inl e, h2)
         | (Inr _, h2) \<Rightarrow> (Inr \<lparr>bitOffset = 0, bitLength = int (length xs), internal = a\<rparr>, h2))"

text \<open>
  The constructor. A \<open>Uint1Array\<close> has the getter \<open>byteLength\<close> on its prototype, so
  \<open>'byteLength' in source\<close> holds for it as it does for an ArrayBuffer.
\<close>

definition Uint1Array ::
  "source \<Rightarrow> int option \<Rightarrow> int option \<Rightarrow> heap \<Rightarrow> (error + uint1array) \<times> heap" where
  "Uint1Array src offset len h =
     (case src of
        NoArg \<Rightarrow> from_length 0 h
      | Length n \<Rightarrow> from_length n h
      | ArrayBuffer a \<Rightarrow> from_buffer src (int (length (h ! a)) ) offset len h
      | Vector v \<Rightarrow> from_buffer src (byteLength v) offset len h
      | ArrayLike xs \<Rightarrow> from_items xs h
      | Iterable xs \<Rightarrow> from_items xs h)"

definition of_items :: "jsval list \<Rightarrow> heap \<Rightarrow> (error + uint1array) \<times> heap" where
  "of_items items h = Uint1Array (ArrayLike items) None None h"

subsection \<open>Indexed access: the Proxy handler\<close>

text \<open>
  The handler sees a property key; when the key is a string whose numeric value \<open>+prop\<close> is
  not NaN, it is an index. \<open>numkey\<close> is that numeric value: a finite number (integral or
  not) or an infinity. Other keys go to \<open>Reflect.get\<close> and \<open>Reflect.set\<close> and are not
  modelled.
\<close>

datatype numkey = Finite rat | PosInfinity | NegInfinity

text \<open>\<open>Number.isInteger(index) && index >= 0 && index < this.bitLength\<close>\<close>

fun in_bounds :: "uint1array \<Rightarrow> numkey \<Rightarrow> bool" where
  "in_bounds v (Finite index) =
     (of_int \<lfloor>index\<rfloor> = index \<and> index \<ge> 0 \<and> index < of_int (bitLength v))"
| "in_bounds v PosInfinity = False"
| "in_bounds v NegInfinity = False"

fun to_int :: "numkey \<Rightarrow> int" where
  "to_int (Finite index) = \<lfloor>index\<rfloor>"
| "to_int _ = 0"

definition proxy_get :: "uint1array \<Rightarrow> numkey \<Rightarrow> heap \<Rightarrow> error + jsval" where
  "proxy_get v key h =
     (if in_bounds v key
      then (case getUint1 (h ! internal v) (to_int key + bitOffset v) of
              Inl e \<Rightarrow> Inl e
            | Inr b \<Rightarrow> Inr (Number b))
      else Inr Undefined)"

definition proxy_set :: "uint1array \<Rightarrow> numkey \<Rightarrow> jsval \<Rightarrow> heap \<Rightarrow> (error + bool) \<times> heap" where
  "proxy_set v key val h =
     (if in_bounds v key
      then (case view_setUint1 (internal v) (to_int key + bitOffset v) val h of
              (Inl e, h') \<Rightarrow> (Inl e, h')
            | (Inr _, h') \<Rightarrow> (Inr True, h'))
      else (Inr False, h))"

text \<open>
  The assignment \<open>v[key] = val\<close>. When the handler's \<open>set\<close> returns false, an assignment in
  strict code raises a TypeError and one in sloppy code goes on (ECMAScript, PutValue).
  The library itself is strict code (\<open>"use strict"\<close>).
\<close>

definition assign ::
  "bool \<Rightarrow> uint1array \<Rightarrow> numkey \<Rightarrow> jsval \<Rightarrow> heap \<Rightarrow> (error + unit) \<times> heap" where
  "assign strict v key val h =
     (case proxy_set v key val h of
        (Inl e, h') \<Rightarrow> (Inl e, h')
      | (Inr ok, h') \<Rightarrow> (if \<not> ok \<and> strict then (Inl TypeError, h') else (Inr (), h')))"

text \<open>The index \<open>i\<close> of a loop of the library, as a property key.\<close>

definition idx :: "int \<Rightarrow> numkey" where
  "idx i = Finite (of_int i)"

subsection \<open>Windowing, copying, bulk write, sorting\<close>

definition subarray ::
  "uint1array \<Rightarrow> int option \<Rightarrow> int option \<Rightarrow> heap \<Rightarrow> (error + uint1array) \<times> heap" where
  "subarray v begin end h =
     (let begin = (case begin of None \<Rightarrow> 0 | Some x \<Rightarrow> x);
          begin = (if begin < 0 then bitLength v + begin else begin);
          begin = (if begin < 0 then 0 else begin);
          end = (case end of None \<Rightarrow> bitLength v | Some x \<Rightarrow> x);
          end = (if end < 0 then bitLength v + end else end);
          end = (if end > bitLength v then bitLength v else end);
          len = (if begin > end then 0 else end - begin)
      in Uint1Array (ArrayBuffer (internal v)) (Some (bitOffset v + begin)) (Some len) h)"

definition slice ::
  "uint1array \<Rightarrow> int option \<Rightarrow> int option \<Rightarrow> heap \<Rightarrow> (error + uint1array) \<times> heap" where
  "slice v start end h =
     (case subarray v start end h of
        (Inl e, h') \<Rightarrow> (Inl e, h')
      | (Inr s, h') \<Rightarrow> Uint1Array (Vector s) None None h')"

text \<open>\<open>set(array, offset)\<close>: the check, then \<open>this[i + offset] = array[i]\<close> for each \<open>i\<close>.\<close>

fun set_loop :: "uint1array \<Rightarrow> int \<Rightarrow> int \<Rightarrow> jsval list \<Rightarrow> heap \<Rightarrow> (error + unit) \<times> heap" where
  "set_loop v offset i [] h = (Inr (), h)"
| "set_loop v offset i (x # xs) h =
     (case assign True v (idx (i + offset)) x h of
        (Inl e, h') \<Rightarrow> (Inl e, h')
      | (Inr _, h') \<Rightarrow> set_loop v offset (i + 1) xs h')"

definition set_method ::
  "uint1array \<Rightarrow> jsval list \<Rightarrow> int option \<Rightarrow> heap \<Rightarrow> (error + unit) \<times> heap" where
  "set_method v array offset h =
     (let offset = (case offset of None \<Rightarrow> 0 | Some x \<Rightarrow> x)
      in if offset < 0 \<or> offset + int (length array) > bitLength v
         then (Inl RangeError, h)
         else set_loop v offset 0 array h)"

text \<open>\<open>[...this]\<close>: the iterator yields \<open>this[i]\<close> for \<open>i\<close> from 0 up to \<open>bitLength\<close>.\<close>

fun collect :: "(error + 'a) list \<Rightarrow> error + 'a list" where
  "collect [] = Inr []"
| "collect (Inl e # rs) = Inl e"
| "collect (Inr x # rs) = (case collect rs of Inl e \<Rightarrow> Inl e | Inr xs \<Rightarrow> Inr (x # xs))"

definition spread :: "uint1array \<Rightarrow> heap \<Rightarrow> error + jsval list" where
  "spread v h = collect (map (\<lambda>i. proxy_get v (idx i) h) [0..bitLength v - 1])"

text \<open>
  \<open>Array.prototype.sort(compareFn)\<close> of the host: \<open>undefined\<close> elements go last and are
  not compared; the others are sorted stably by the comparator. It is modelled as the
  insertion sort, which gives the one result a stable sort can give when the comparator is
  consistent.
\<close>

fun insert_by :: "(int \<Rightarrow> int \<Rightarrow> int) \<Rightarrow> int \<Rightarrow> int list \<Rightarrow> int list" where
  "insert_by cmp x [] = [x]"
| "insert_by cmp x (y # ys) = (if cmp x y \<le> 0 then x # y # ys else y # insert_by cmp x ys)"

definition Array_sort :: "(int \<Rightarrow> int \<Rightarrow> int) \<Rightarrow> jsval list \<Rightarrow> jsval list" where
  "Array_sort cmp xs =
     map Number (foldr (insert_by cmp) [n. Number n \<leftarrow> xs] []) @ filter (\<lambda>x. x = Undefined) xs"

definition sort_method ::
  "uint1array \<Rightarrow> (int \<Rightarrow> int \<Rightarrow> int) option \<Rightarrow> heap \<Rightarrow> (error + uint1array) \<times> heap" where
  "sort_method v compareFn h =
     (let cmp = (case compareFn of None \<Rightarrow> (\<lambda>a b. a - b) | Some f \<Rightarrow> f)
      in case spread v h of
           Inl e \<Rightarrow> (Inl e, h)
         | Inr xs \<Rightarrow>
             (case set_method v (Array_sort cmp xs) None h of
                (Inl e, h') \<Rightarrow> (Inl e, h')
              | (Inr _, h') \<Rightarrow> (Inr v, h')))"

text \<open>
  The class invariant: the window lies inside the buffer the view was built on. Every
  successful construction establishes it.
\<close>

definition wf :: "uint1array \<Rightarrow> heap \<Rightarrow> bool" where
  "wf v h \<longleftrightarrow>
     0 \<le> bitOffset v \<and> 0 \<le> bitLength v \<and> internal v < length h \<and>
     bitOffset v + bitLength v \<le> 8 * int (length (h ! internal v))"

text \<open>Bit \<open>j\<close> of a buffer, most significant bit of each byte first.\<close>

definition bit_of :: "arraybuffer \<Rightarrow> int \<Rightarrow> bool" where
  "bit_of buf j = bit (buf ! nat (j div 8)) (7 - nat (j mod 8))"

section \<open>Bit addressing\<close>

lemma js_rem_nonneg: "0 \<le> i \<Longrightarrow> js_rem i 8 = i mod 8"
  by (cases "i = 0") (simp_all add: js_rem_def)

lemma nat_lt8_cases:
  "r < 8 \<Longrightarrow> r = 0 \<or> r = 1 \<or> r = 2 \<or> r = 3 \<or> r = 4 \<or> r = 5 \<or> r = 6 \<or> r = (7::nat)"
  by arith

lemma shr_0x80:
  assumes "r < 8"
  shows "signed_drop_bit r (0x80 :: int32) = 2 ^ (7 - r)"
  using nat_lt8_cases [OF assms] by (elim disjE) simp_all

lemma drop_0x80:
  assumes "r < 8"
  shows "drop_bit r (0x80 :: byte) = 2 ^ (7 - r)"
  using nat_lt8_cases [OF assms] by (elim disjE) simp_all

lemma bitMask_eq:
  assumes "0 \<le> i"
  shows "js_shr 0x80 (js_rem i 8) = 2 ^ (7 - nat (i mod 8))"
proof -
  have "i mod 8 mod 32 = i mod 8" by presburger
  moreover have "nat (i mod 8) < 8" by simp
  ultimately show ?thesis
    using assms by (simp add: js_rem_nonneg js_shr_def shr_0x80)
qed

lemma spec_bitMask_eq: "spec_bitMask i = 2 ^ (7 - nat (i mod 8))"
  by (simp add: spec_bitMask_def drop_0x80)

lemma test_bit32: "k < 8 \<Longrightarrow> ((ucast (b::byte) :: int32) AND 2 ^ k \<noteq> 0) = bit b k"
  by (simp add: and_exp_eq_0_iff_not_bit bit_simps)

lemma test_bit8: "((b::byte) AND 2 ^ k \<noteq> 0) = bit b k"
  by (simp add: and_exp_eq_0_iff_not_bit bit_simps)

lemma or_ucast:
  "k < 8 \<Longrightarrow> (ucast ((ucast (b::byte) :: int32) OR 2 ^ k) :: byte) = b OR 2 ^ k"
  by (rule bit_word_eqI) (auto simp add: bit_simps)

lemma and_not_ucast:
  "k < 8 \<Longrightarrow> (ucast ((ucast (b::byte) :: int32) AND NOT (2 ^ k)) :: byte) = b AND NOT (2 ^ k)"
  by (rule bit_word_eqI) (auto simp add: bit_simps)

lemma in_range_byte:
  "0 \<le> i \<Longrightarrow> i < 8 * int (length buf) \<Longrightarrow> 0 \<le> i div 8 \<and> i div 8 < int (length buf)"
  by (simp add: pos_imp_zdiv_nonneg_iff)

lemma getUint1_in_range:
  assumes "0 \<le> i" "i < 8 * int (length buf)"
  shows "getUint1 buf i = Inr (if bit_of buf i then 1 else 0)"
  using in_range_byte [OF assms] assms(1)
  by (simp add: getUint1_def getUint8_def bitMask_eq test_bit32 bit_of_def)

lemma setUint1_in_range:
  assumes "0 \<le> i" "i < 8 * int (length buf)"
  shows "setUint1 buf i v = Inr (buf[nat (i div 8) :=
           (if lowbit v then buf ! nat (i div 8) OR 2 ^ (7 - nat (i mod 8))
            else buf ! nat (i div 8) AND NOT (2 ^ (7 - nat (i mod 8))))])"
  using in_range_byte [OF assms] assms(1)
  by (simp add: setUint1_def getUint8_def setUint8_def bitMask_eq or_ucast and_not_ucast lowbit_def Let_def)

lemma bit_or_exp: "k < 8 \<Longrightarrow> bit ((b::byte) OR 2 ^ k) n = (bit b n \<or> n = k)"
  by (auto simp add: bit_simps)

lemma bit_and_not_exp: "bit ((b::byte) AND NOT (2 ^ k)) n = (bit b n \<and> n \<noteq> k)"
  by (auto simp add: bit_simps dest: bit_imp_le_length)

lemma same_byte_same_bit:
  assumes "j div 8 = i div 8"
  shows "(7 - nat (j mod 8) = 7 - nat (i mod 8)) = (j = (i::int))"
proof -
  have a: "j = i \<longleftrightarrow> j mod 8 = i mod 8" using assms by (metis div_mult_mod_eq)
  have "nat (j mod 8) \<le> 7" "nat (i mod 8) \<le> 7" by simp_all
  then have "(7 - nat (j mod 8) = 7 - nat (i mod 8)) = (nat (j mod 8) = nat (i mod 8))"
    by arith
  also have "\<dots> = (j mod 8 = i mod 8)" by (simp add: nat_eq_iff)
  finally show ?thesis using a by simp
qed

lemma bit_of_update:
  assumes "0 \<le> i" "i < 8 * int (length buf)" "0 \<le> j"
  shows "bit_of (buf[nat (i div 8) :=
           (if c then buf ! nat (i div 8) OR 2 ^ (7 - nat (i mod 8))
            else buf ! nat (i div 8) AND NOT (2 ^ (7 - nat (i mod 8))))]) j
         = (if j = i then c else bit_of buf j)"
proof (cases "j div 8 = i div 8")
  case True
  have lt: "nat (i div 8) < length buf" using in_range_byte [OF assms(1,2)] by linarith
  have k8: "7 - nat (i mod 8) < 8" by simp
  show ?thesis
    using lt by (simp add: bit_of_def True bit_or_exp [OF k8] bit_and_not_exp same_byte_same_bit [OF True])
next
  case False
  then have "nat (j div 8) \<noteq> nat (i div 8)" "j \<noteq> i"
    using assms by (auto simp add: pos_imp_zdiv_nonneg_iff nat_eq_iff)
  then show ?thesis by (simp add: bit_of_def)
qed

lemma lowbit_Number: "lowbit (Number n) = odd n"
proof -
  have "((word_of_int n :: int32) AND 1 \<noteq> 0) = bit (word_of_int n :: int32) 0"
    using and_exp_eq_0_iff_not_bit [of "word_of_int n :: int32" 0] by simp
  moreover have "bit (word_of_int n :: int32) 0 = bit n 0"
    unfolding bit_word_of_int_iff by simp
  ultimately show ?thesis by (simp add: lowbit_def bit_0)
qed

lemma lowbit_Undefined: "lowbit Undefined = False"
  by (simp add: lowbit_def)

lemma setUint1_length:
  assumes "0 \<le> i" "i < 8 * int (length buf)" "setUint1 buf i v = Inr buf'"
  shows "length buf' = length buf"
  using assms(3) by (auto simp add: setUint1_in_range [OF assms(1,2)])

lemma setUint1_bit_of:
  assumes "0 \<le> i" "i < 8 * int (length buf)" "setUint1 buf i v = Inr buf'" "0 \<le> j"
  shows "bit_of buf' j = (if j = i then lowbit v else bit_of buf j)"
proof -
  have "buf' = buf[nat (i div 8) :=
           (if lowbit v then buf ! nat (i div 8) OR 2 ^ (7 - nat (i mod 8))
            else buf ! nat (i div 8) AND NOT (2 ^ (7 - nat (i mod 8))))]"
    using assms(3) by (simp add: setUint1_in_range [OF assms(1,2)])
  then show ?thesis using bit_of_update [OF assms(1,2,4)] by simp
qed

text \<open>
  Claim C3. For a bit offset inside the buffer, \<open>getUint1\<close> tests and \<open>setUint1\<close>
  rewrites the byte at index \<open>floor (bitOffset / 8)\<close> under the mask
  \<open>0x80 >> (bitOffset mod 8)\<close>, which is the single bit \<open>7 - bitOffset mod 8\<close> (most
  significant bit first); both use the same byte and the same mask.
\<close>

theorem getUint1_setUint1_addressing:
  assumes "0 \<le> i" "i < 8 * int (length buf)"
  shows "getUint1 buf i = Inr (if buf ! spec_byteIndex i AND spec_bitMask i \<noteq> 0 then 1 else 0)
       \<and> setUint1 buf i v =
           Inr (buf[spec_byteIndex i :=
                  (if lowbit v then buf ! spec_byteIndex i OR spec_bitMask i
                   else buf ! spec_byteIndex i AND NOT (spec_bitMask i))])
       \<and> spec_bitMask i = push_bit (7 - nat (i mod 8)) 1"
proof (intro conjI)
  show "getUint1 buf i = Inr (if buf ! spec_byteIndex i AND spec_bitMask i \<noteq> 0 then 1 else 0)"
    by (simp add: getUint1_in_range [OF assms] bit_of_def spec_byteIndex_def spec_bitMask_eq test_bit8)
  show "setUint1 buf i v =
           Inr (buf[spec_byteIndex i :=
                  (if lowbit v then buf ! spec_byteIndex i OR spec_bitMask i
                   else buf ! spec_byteIndex i AND NOT (spec_bitMask i))])"
    by (simp add: setUint1_in_range [OF assms] spec_byteIndex_def spec_bitMask_eq)
  show "spec_bitMask i = push_bit (7 - nat (i mod 8)) 1"
    by (simp add: spec_bitMask_eq)
qed

theorem getUint1_setUint1_addressing_witness:
  "(0::int) \<le> 15 \<and> (15::int) < 8 * int (length [0x80, 0x01 :: byte])
   \<and> getUint1 [0x80, 0x01] 15 = Inr 1
   \<and> setUint1 [0x80, 0x01] 15 (Number 0) = Inr [0x80, 0x00]
   \<and> spec_bitMask 15 = 1"
  using getUint1_setUint1_addressing [of 15 "[0x80, 0x01]" "Number 0"]
  by (simp add: spec_byteIndex_def spec_bitMask_def lowbit_def)

text \<open>
  Claim C4. For a bit offset \<open>i\<close> inside the buffer and \<open>v\<close> either 0 or 1,
  \<open>setUint1 i v\<close> succeeds, \<open>getUint1 i\<close> then returns \<open>v\<close>, every other bit
  reads as before, every other byte is unchanged and so are the other seven bits of the
  byte that holds bit \<open>i\<close>.
\<close>

theorem setUint1_roundtrip_frame:
  assumes "0 \<le> i" "i < 8 * int (length buf)" "v = 0 \<or> v = 1"
  shows "\<exists>buf'. setUint1 buf i (Number v) = Inr buf'
           \<and> length buf' = length buf
           \<and> getUint1 buf' i = Inr v
           \<and> (\<forall>j. 0 \<le> j \<and> j < 8 * int (length buf) \<and> j \<noteq> i \<longrightarrow> getUint1 buf' j = getUint1 buf j)
           \<and> (\<forall>k < length buf. k \<noteq> nat (i div 8) \<longrightarrow> buf' ! k = buf ! k)
           \<and> (\<forall>n. n \<noteq> 7 - nat (i mod 8) \<longrightarrow>
                  bit (buf' ! nat (i div 8)) n = bit (buf ! nat (i div 8)) n)"
proof -
  define buf' where "buf' = buf[nat (i div 8) :=
           (if lowbit (Number v) then buf ! nat (i div 8) OR 2 ^ (7 - nat (i mod 8))
            else buf ! nat (i div 8) AND NOT (2 ^ (7 - nat (i mod 8))))]"
  have s: "setUint1 buf i (Number v) = Inr buf'"
    unfolding buf'_def by (rule setUint1_in_range [OF assms(1,2)])
  have len: "length buf' = length buf" by (simp add: buf'_def)
  have lt: "nat (i div 8) < length buf" using in_range_byte [OF assms(1,2)] by linarith
  have lb: "lowbit (Number v) = (v = 1)" using assms(3) by (auto simp add: lowbit_Number)
  have bits: "\<And>j. 0 \<le> j \<Longrightarrow> bit_of buf' j = (if j = i then lowbit (Number v) else bit_of buf j)"
    by (rule setUint1_bit_of [OF assms(1,2) s])
  have g: "getUint1 buf' i = Inr v"
    using assms by (auto simp add: getUint1_in_range len bits lb)
  have f: "\<forall>j. 0 \<le> j \<and> j < 8 * int (length buf) \<and> j \<noteq> i \<longrightarrow> getUint1 buf' j = getUint1 buf j"
    by (simp add: getUint1_in_range len bits)
  have o: "\<forall>k < length buf. k \<noteq> nat (i div 8) \<longrightarrow> buf' ! k = buf ! k"
    by (simp add: buf'_def)
  have b: "\<forall>n. n \<noteq> 7 - nat (i mod 8) \<longrightarrow>
                  bit (buf' ! nat (i div 8)) n = bit (buf ! nat (i div 8)) n"
    using lt by (auto simp add: buf'_def bit_simps dest: bit_imp_le_length)
  from s len g f o b show ?thesis by blast
qed

theorem setUint1_roundtrip_frame_witness:
  "(0::int) \<le> 9 \<and> (9::int) < 8 * int (length [0xFF, 0x00 :: byte]) \<and> ((1::int) = 0 \<or> (1::int) = 1)
   \<and> (\<exists>buf'. setUint1 [0xFF, 0x00] 9 (Number 1) = Inr buf'
           \<and> length buf' = length [0xFF, 0x00 :: byte]
           \<and> getUint1 buf' 9 = Inr 1
           \<and> (\<forall>j. 0 \<le> j \<and> j < 8 * int (length [0xFF, 0x00 :: byte]) \<and> j \<noteq> 9
                  \<longrightarrow> getUint1 buf' j = getUint1 [0xFF, 0x00] j)
           \<and> (\<forall>k < length [0xFF, 0x00 :: byte]. k \<noteq> nat (9 div 8) \<longrightarrow> buf' ! k = [0xFF, 0x00] ! k)
           \<and> (\<forall>n. n \<noteq> 7 - nat (9 mod 8) \<longrightarrow>
                  bit (buf' ! nat (9 div 8)) n = bit ([0xFF, 0x00 :: byte] ! nat (9 div 8)) n))"
  using setUint1_roundtrip_frame [of 9 "[0xFF, 0x00]" 1] by simp

section \<open>Loops over the buffer\<close>

lemma setUint1_ok:
  assumes "0 \<le> i" "i < 8 * int (length buf)"
  shows "\<exists>buf'. setUint1 buf i v = Inr buf' \<and> length buf' = length buf
           \<and> (\<forall>j\<ge>0. bit_of buf' j = (if j = i then lowbit v else bit_of buf j))"
proof -
  obtain buf' where s: "setUint1 buf i v = Inr buf'"
    using setUint1_in_range [OF assms] by blast
  then show ?thesis
    using setUint1_length [OF assms s] setUint1_bit_of [OF assms s] by blast
qed

lemma collect_Inr: "collect (map (\<lambda>i. Inr (f i)) is) = Inr (map f is)"
  by (induction "is") simp_all

lemma in_bounds_idx: "in_bounds v (idx i) = (0 \<le> i \<and> i < bitLength v)"
  by (simp add: idx_def)

lemma to_int_idx: "to_int (idx i) = i"
  by (simp add: idx_def)

lemma in_bounds_iff: "in_bounds v key = (\<exists>i. key = idx i \<and> 0 \<le> i \<and> i < bitLength v)"
proof (cases key)
  case (Finite r)
  show ?thesis
  proof
    assume "in_bounds v key"
    then have "key = idx \<lfloor>r\<rfloor> \<and> 0 \<le> \<lfloor>r\<rfloor> \<and> \<lfloor>r\<rfloor> < bitLength v" using Finite
      by (auto simp add: idx_def)
    then show "\<exists>i. key = idx i \<and> 0 \<le> i \<and> i < bitLength v" by blast
  next
    assume "\<exists>i. key = idx i \<and> 0 \<le> i \<and> i < bitLength v"
    then show "in_bounds v key" by (auto simp add: in_bounds_idx)
  qed
qed (simp_all add: idx_def)

lemma assign_in_bounds:
  assumes "0 \<le> i" "i < bitLength v"
  shows "assign strict v (idx i) x h = view_setUint1 (internal v) (i + bitOffset v) x h"
  using assms
  by (simp add: assign_def proxy_set_def in_bounds_idx to_int_idx split: prod.splits sum.splits)

lemma set_loop_eq_init_loop:
  assumes "0 \<le> i + off" "i + off + int (length xs) \<le> bitLength v"
  shows "set_loop v off i xs h = init_loop (internal v) (i + off + bitOffset v) xs h"
  using assms
proof (induction xs arbitrary: i h)
  case Nil
  then show ?case by simp
next
  case (Cons x xs)
  have a: "assign True v (idx (i + off)) x h = view_setUint1 (internal v) (i + off + bitOffset v) x h"
    using Cons.prems by (intro assign_in_bounds) simp_all
  have "\<And>h'. set_loop v off (i + 1) xs h' = init_loop (internal v) (i + 1 + off + bitOffset v) xs h'"
    using Cons.prems by (intro Cons.IH) simp_all
  then have b: "\<And>h'. set_loop v off (i + 1) xs h' = init_loop (internal v) (i + off + bitOffset v + 1) xs h'"
    by (simp add: add.commute add.left_commute)
  show ?case by (simp add: a b split: prod.splits sum.splits)
qed

lemma view_setUint1_ok:
  assumes "a < length h" "0 \<le> i" "i < 8 * int (length (h ! a))"
  shows "\<exists>buf'. view_setUint1 a i x h = (Inr (), h[a := buf']) \<and> length buf' = length (h ! a)
           \<and> (\<forall>j\<ge>0. bit_of buf' j = (if j = i then lowbit x else bit_of (h ! a) j))"
  using setUint1_ok [OF assms(2,3), of x] by (auto simp add: view_setUint1_def)

lemma init_loop_ok:
  assumes "a < length h" "0 \<le> i" "i + int (length xs) \<le> 8 * int (length (h ! a))"
  shows "\<exists>buf'. init_loop a i xs h = (Inr (), h[a := buf']) \<and> length buf' = length (h ! a)
           \<and> (\<forall>j\<ge>0. bit_of buf' j =
                  (if i \<le> j \<and> j < i + int (length xs) then lowbit (xs ! nat (j - i))
                   else bit_of (h ! a) j))"
  using assms
proof (induction xs arbitrary: i h)
  case Nil
  show ?case by (intro exI [of _ "h ! a"]) auto
next
  case (Cons x xs)
  obtain b1 where b1: "view_setUint1 a i x h = (Inr (), h[a := b1])" "length b1 = length (h ! a)"
      "\<forall>j\<ge>0. bit_of b1 j = (if j = i then lowbit x else bit_of (h ! a) j)"
    using view_setUint1_ok [of a h i x] Cons.prems by auto
  let ?h1 = "h[a := b1]"
  have h1a: "?h1 ! a = b1" using Cons.prems(1) by simp
  obtain b2 where b2: "init_loop a (i + 1) xs ?h1 = (Inr (), ?h1[a := b2])" "length b2 = length b1"
      "\<forall>j\<ge>0. bit_of b2 j =
         (if i + 1 \<le> j \<and> j < i + 1 + int (length xs) then lowbit (xs ! nat (j - (i + 1)))
          else bit_of b1 j)"
    using Cons.IH [of ?h1 "i + 1"] Cons.prems b1(2) h1a by auto
  have run: "init_loop a i (x # xs) h = (Inr (), h[a := b2])"
    by (simp add: b1(1) b2(1))
  have bits: "\<forall>j\<ge>0. bit_of b2 j =
                  (if i \<le> j \<and> j < i + int (length (x # xs)) then lowbit ((x # xs) ! nat (j - i))
                   else bit_of (h ! a) j)"
  proof (intro allI impI)
    fix j :: int
    assume j: "0 \<le> j"
    show "bit_of b2 j =
                  (if i \<le> j \<and> j < i + int (length (x # xs)) then lowbit ((x # xs) ! nat (j - i))
                   else bit_of (h ! a) j)"
    proof (cases "j = i")
      case True
      then show ?thesis using b2(3) b1(3) j by simp
    next
      case False
      have "i < j \<Longrightarrow> nat (j - i) = Suc (nat (j - (i + 1)))" by linarith
      then show ?thesis using False b2(3) b1(3) j by auto
    qed
  qed
  show ?case using run bits b2(2) b1(2) by auto
qed

section \<open>Reading a vector\<close>

lemma proxy_get_in_bounds:
  assumes "wf v h" "0 \<le> i" "i < bitLength v"
  shows "proxy_get v (idx i) h = Inr (Number (if bit_of (h ! internal v) (i + bitOffset v) then 1 else 0))"
proof -
  have "0 \<le> i + bitOffset v" "i + bitOffset v < 8 * int (length (h ! internal v))"
    using assms by (auto simp add: wf_def)
  then show ?thesis
    using assms(2,3) by (simp add: proxy_get_def in_bounds_idx to_int_idx getUint1_in_range)
qed

lemma spread_wf:
  assumes "wf v h"
  shows "spread v h =
           Inr (map (\<lambda>i. Number (if bit_of (h ! internal v) (i + bitOffset v) then 1 else 0))
                  [0..bitLength v - 1])"
proof -
  have eq: "map (\<lambda>i. proxy_get v (idx i) h) [0..bitLength v - 1] =
        map (\<lambda>i. Inr (Number (if bit_of (h ! internal v) (i + bitOffset v) then 1 else 0)))
          [0..bitLength v - 1]"
    using assms by (intro map_cong) (simp_all add: proxy_get_in_bounds)
  show ?thesis unfolding spread_def eq by (rule collect_Inr)
qed

lemma map_nth_upto: "map (\<lambda>i. xs ! nat i) [0..int (length xs) - 1] = xs"
  by (rule nth_equalityI) simp_all

lemma byteLength_nonneg: "0 \<le> bitLength v \<Longrightarrow> 0 \<le> byteLength v"
  by (simp add: byteLength_def ceil8_def)

section \<open>Construction from a vector, and slice\<close>

text \<open>
  Claim C10. Passing an existing vector \<open>a\<close> as the only argument of the constructor
  does not copy it: \<open>a\<close> has \<open>byteLength\<close>, so the buffer branch is taken, its
  checks pass, and building the view on \<open>a\<close>, which is no ArrayBuffer, raises a
  TypeError. The heap is left as it was.
\<close>

theorem Uint1Array_of_vector_raises:
  assumes "0 \<le> bitLength a"
  shows "Uint1Array (Vector a) None None h = (Inl TypeError, h)"
  using byteLength_nonneg [OF assms] by (simp add: Uint1Array_def from_buffer_def)

theorem Uint1Array_of_vector_raises_witness:
  "(0::int) \<le> bitLength \<lparr>bitOffset = 0, bitLength = 4, internal = 0\<rparr>
   \<and> Uint1Array (Vector \<lparr>bitOffset = 0, bitLength = 4, internal = 0\<rparr>) None None [[0xA0]]
       = (Inl TypeError, [[0xA0]])"
  using Uint1Array_of_vector_raises [of "\<lparr>bitOffset = 0, bitLength = 4, internal = 0\<rparr>" "[[0xA0]]"]
  by simp

lemma of_1010: "of_items [Number 1, Number 0, Number 1, Number 0] [] =
         (Inr \<lparr>bitOffset = 0, bitLength = 4, internal = 0\<rparr>, [[0xA0]])"
  by (simp add: of_items_def Uint1Array_def from_items_def new_ArrayBuffer_def ceil8_def
        view_setUint1_def setUint1_def getUint8_def setUint8_def js_shr_def js_rem_def)

lemma subarray_1010: "subarray \<lparr>bitOffset = 0, bitLength = 4, internal = 0\<rparr> (Some 1) (Some 3) [[0xA0]]
   = (Inr \<lparr>bitOffset = 1, bitLength = 2, internal = 0\<rparr>, [[0xA0]])"
  by (simp add: subarray_def Uint1Array_def from_buffer_def)

text \<open>
  Claim C1 (not met by the code). \<open>slice\<close> hands the subarray, a vector, to the
  constructor, so by the dispatch above it raises a TypeError instead of returning a
  copy: here \<open>Uint1Array.of(1,0,1,0).slice(1,3)\<close>.
\<close>

theorem slice_of_1010_raises:
  "of_items [Number 1, Number 0, Number 1, Number 0] [] =
         (Inr \<lparr>bitOffset = 0, bitLength = 4, internal = 0\<rparr>, [[0xA0]])
   \<and> slice \<lparr>bitOffset = 0, bitLength = 4, internal = 0\<rparr> (Some 1) (Some 3) [[0xA0]]
       = (Inl TypeError, [[0xA0]])"
proof
  show "of_items [Number 1, Number 0, Number 1, Number 0] [] =
         (Inr \<lparr>bitOffset = 0, bitLength = 4, internal = 0\<rparr>, [[0xA0]])"
    by (rule of_1010)
  show "slice \<lparr>bitOffset = 0, bitLength = 4, internal = 0\<rparr> (Some 1) (Some 3) [[0xA0]]
       = (Inl TypeError, [[0xA0]])"
    by (simp add: slice_def subarray_1010 Uint1Array_def from_buffer_def byteLength_def ceil8_def)
qed

lemma new_8: "Uint1Array (Length 8) None None [] =
         (Inr \<lparr>bitOffset = 0, bitLength = 8, internal = 0\<rparr>, [[0]])"
  by (simp add: Uint1Array_def from_length_def new_ArrayBuffer_def ceil8_def)

text \<open>
  Claim C6 (not met by the code). \<open>begin\<close> is clamped from below only, so a
  \<open>begin\<close> past the end of the buffer reaches the constructor's offset check, which
  raises a RangeError although the length was set to 0: here
  \<open>new Uint1Array(8).subarray(10, 5)\<close>.
\<close>

theorem subarray_begin_past_length_raises:
  "Uint1Array (Length 8) None None [] =
         (Inr \<lparr>bitOffset = 0, bitLength = 8, internal = 0\<rparr>, [[0]])
   \<and> subarray \<lparr>bitOffset = 0, bitLength = 8, internal = 0\<rparr> (Some 10) (Some 5) [[0]]
       = (Inl RangeError, [[0]])"
proof
  show "Uint1Array (Length 8) None None [] =
         (Inr \<lparr>bitOffset = 0, bitLength = 8, internal = 0\<rparr>, [[0]])"
    by (rule new_8)
  show "subarray \<lparr>bitOffset = 0, bitLength = 8, internal = 0\<rparr> (Some 10) (Some 5) [[0]]
       = (Inl RangeError, [[0]])"
    by (simp add: subarray_def Uint1Array_def from_buffer_def)
qed

section \<open>Indexed access and bulk write\<close>

lemma wf_update:
  assumes "wf v h" "length buf' = length (h ! internal v)"
  shows "wf v (h[internal v := buf'])"
  using assms by (simp add: wf_def)

lemma proxy_out_of_bounds:
  assumes "\<not> in_bounds v key"
  shows "proxy_get v key h = Inr Undefined" "proxy_set v key val h = (Inr False, h)"
  using assms by (simp_all add: proxy_get_def proxy_set_def)

text \<open>
  Claim C5 (amended). For a vector of length \<open>N\<close> and a numeric key that is not an
  integer in \<open>[0, N)\<close> (negative, fractional, infinite, or \<open>N\<close> and beyond), a read
  yields \<open>undefined\<close> without raising, and the handler's \<open>set\<close> returns false and
  leaves every buffer as it was. An assignment in sloppy code then goes on silently; an
  assignment in strict code raises a TypeError, still without changing anything.
\<close>

theorem out_of_bounds_access:
  assumes "\<not> (\<exists>i. key = idx i \<and> 0 \<le> i \<and> i < bitLength v)"
  shows "proxy_get v key h = Inr Undefined
       \<and> proxy_set v key val h = (Inr False, h)
       \<and> assign False v key val h = (Inr (), h)
       \<and> assign True v key val h = (Inl TypeError, h)"
proof -
  have "\<not> in_bounds v key" unfolding in_bounds_iff using assms .
  then show ?thesis by (simp add: proxy_out_of_bounds assign_def)
qed

theorem out_of_bounds_access_witness:
  "\<not> (\<exists>i. Finite (1 / 2) = idx i \<and> 0 \<le> i \<and> i < bitLength \<lparr>bitOffset = 0, bitLength = 8, internal = 0\<rparr>)
   \<and> proxy_get \<lparr>bitOffset = 0, bitLength = 8, internal = 0\<rparr> (Finite (1 / 2)) [[0]] = Inr Undefined
   \<and> proxy_set \<lparr>bitOffset = 0, bitLength = 8, internal = 0\<rparr> (Finite (1 / 2)) (Number 1) [[0]] = (Inr False, [[0]])
   \<and> assign False \<lparr>bitOffset = 0, bitLength = 8, internal = 0\<rparr> (Finite (1 / 2)) (Number 1) [[0]] = (Inr (), [[0]])
   \<and> assign True \<lparr>bitOffset = 0, bitLength = 8, internal = 0\<rparr> (Finite (1 / 2)) (Number 1) [[0]] = (Inl TypeError, [[0]])"
proof -
  have h: "\<not> (\<exists>i. Finite (1 / 2) = idx i \<and> 0 \<le> i \<and> i < bitLength \<lparr>bitOffset = 0, bitLength = 8, internal = 0\<rparr>)"
  proof -
    have "\<lfloor>1 / 2 :: rat\<rfloor> = 0" by (rule floor_unique) simp_all
    then have "\<not> in_bounds \<lparr>bitOffset = 0, bitLength = 8, internal = 0\<rparr> (Finite (1 / 2))"
      by (simp del: of_int_eq_iff)
    then show ?thesis unfolding in_bounds_iff .
  qed
  show ?thesis
    using h out_of_bounds_access [OF h, of "[[0]]" "Number 1"] by simp
qed

text \<open>
  Claim C5 as stated fails: in strict code the write \<open>v[N] = 1\<close> on
  \<open>v = new Uint1Array(8)\<close> raises.
\<close>

theorem strict_write_past_end_raises:
  "Uint1Array (Length 8) None None [] =
         (Inr \<lparr>bitOffset = 0, bitLength = 8, internal = 0\<rparr>, [[0]])
   \<and> assign True \<lparr>bitOffset = 0, bitLength = 8, internal = 0\<rparr> (idx 8) (Number 1) [[0]]
       = (Inl TypeError, [[0]])"
proof
  show "Uint1Array (Length 8) None None [] =
         (Inr \<lparr>bitOffset = 0, bitLength = 8, internal = 0\<rparr>, [[0]])"
    by (rule new_8)
  show "assign True \<lparr>bitOffset = 0, bitLength = 8, internal = 0\<rparr> (idx 8) (Number 1) [[0]]
       = (Inl TypeError, [[0]])"
    by (simp add: assign_def proxy_set_def in_bounds_idx)
qed

lemma set_method_in_range:
  assumes "wf v h" "0 \<le> off" "off + int (length xs) \<le> bitLength v"
  shows "\<exists>buf'. set_method v xs (Some off) h = (Inr (), h[internal v := buf'])
           \<and> length buf' = length (h ! internal v)
           \<and> (\<forall>j\<ge>0. bit_of buf' j =
                  (if off + bitOffset v \<le> j \<and> j < off + bitOffset v + int (length xs)
                   then lowbit (xs ! nat (j - (off + bitOffset v)))
                   else bit_of (h ! internal v) j))"
proof -
  have eq: "set_method v xs (Some off) h = init_loop (internal v) (off + bitOffset v) xs h"
    using assms(2,3) set_loop_eq_init_loop [of 0 off xs v h] by (simp add: set_method_def)
  have "internal v < length h" "0 \<le> off + bitOffset v"
       "off + bitOffset v + int (length xs) \<le> 8 * int (length (h ! internal v))"
    using assms by (auto simp add: wf_def)
  from init_loop_ok [OF this] show ?thesis unfolding eq .
qed

lemma set_method_None: "set_method v xs None h = set_method v xs (Some 0) h"
  by (simp add: set_method_def)

text \<open>
  Claim C7. \<open>set(array, offset)\<close> raises a RangeError exactly when \<open>offset < 0\<close> or
  \<open>offset + array.length > bitLength\<close>; when it does, the heap is the one it was given,
  so nothing was written; otherwise it returns normally.
\<close>

theorem set_method_range_error:
  assumes "wf v h"
  shows "(fst (set_method v array offset h) = Inl RangeError \<longleftrightarrow>
            (case offset of None \<Rightarrow> 0 | Some x \<Rightarrow> x) < 0
            \<or> (case offset of None \<Rightarrow> 0 | Some x \<Rightarrow> x) + int (length array) > bitLength v)
       \<and> (fst (set_method v array offset h) = Inl RangeError \<longrightarrow>
            snd (set_method v array offset h) = h)
       \<and> (fst (set_method v array offset h) \<noteq> Inl RangeError \<longrightarrow>
            fst (set_method v array offset h) = Inr ())"
proof -
  define off where "off = (case offset of None \<Rightarrow> 0 | Some x \<Rightarrow> x)"
  have m: "set_method v array offset h = set_method v array (Some off) h"
    by (cases offset) (simp_all add: off_def set_method_None)
  show ?thesis
  proof (cases "off < 0 \<or> off + int (length array) > bitLength v")
    case True
    then have "set_method v array (Some off) h = (Inl RangeError, h)"
      by (simp add: set_method_def)
    then show ?thesis using True by (simp add: m off_def [symmetric])
  next
    case False
    then have "0 \<le> off" "off + int (length array) \<le> bitLength v" by auto
    from set_method_in_range [OF assms this]
    obtain buf' where "set_method v array (Some off) h = (Inr (), h[internal v := buf'])"
      by blast
    then show ?thesis using False by (simp add: m off_def [symmetric])
  qed
qed

theorem set_method_range_error_witness:
  "wf \<lparr>bitOffset = 0, bitLength = 8, internal = 0\<rparr> [[0]]
   \<and> set_method \<lparr>bitOffset = 0, bitLength = 8, internal = 0\<rparr> [Number 1, Number 1] (Some 7) [[0]]
       = (Inl RangeError, [[0]])
   \<and> set_method \<lparr>bitOffset = 0, bitLength = 8, internal = 0\<rparr> [Number 1, Number 1] (Some 6) [[0]]
       = (Inr (), [[3]])"
proof -
  have w: "wf \<lparr>bitOffset = 0, bitLength = 8, internal = 0\<rparr> [[0]]" by (simp add: wf_def)
  have a: "set_method \<lparr>bitOffset = 0, bitLength = 8, internal = 0\<rparr> [Number 1, Number 1] (Some 7) [[0]]
       = (Inl RangeError, [[0]])"
    using set_method_range_error [OF w, of "[Number 1, Number 1]" "Some 7"]
    by (simp add: prod_eq_iff)
  have b: "set_method \<lparr>bitOffset = 0, bitLength = 8, internal = 0\<rparr> [Number 1, Number 1] (Some 6) [[0]]
       = (Inr (), [[3]])"
    by (simp add: set_method_def assign_def proxy_set_def idx_def view_setUint1_def
          setUint1_def getUint8_def setUint8_def js_shr_def js_rem_def)
  show ?thesis using w a b by simp
qed

section \<open>Views share the buffer\<close>

lemma subarray_in_range:
  assumes "wf a h" "0 \<le> x" "x \<le> y" "y \<le> bitLength a"
  shows "subarray a (Some x) (Some y) h =
           (Inr \<lparr>bitOffset = bitOffset a + x, bitLength = y - x, internal = internal a\<rparr>, h)"
  using assms by (simp add: subarray_def Uint1Array_def from_buffer_def wf_def)

lemma write_then_read:
  assumes "wf u h" "wf v h" "internal u = internal v"
      "0 \<le> i" "i < bitLength u" "0 \<le> j" "j < bitLength v"
      "i + bitOffset u = j + bitOffset v"
  shows "\<exists>h'. assign strict u (idx i) val h = (Inr (), h')
           \<and> proxy_get v (idx j) h' = Inr (Number (if lowbit val then 1 else 0))"
proof -
  have r: "internal u < length h" "0 \<le> i + bitOffset u"
      "i + bitOffset u < 8 * int (length (h ! internal u))"
    using assms(1,4,5) by (auto simp add: wf_def)
  obtain buf' where w: "view_setUint1 (internal u) (i + bitOffset u) val h = (Inr (), h[internal u := buf'])"
      "length buf' = length (h ! internal u)"
      "\<forall>k\<ge>0. bit_of buf' k = (if k = i + bitOffset u then lowbit val else bit_of (h ! internal u) k)"
    using view_setUint1_ok [OF r, of val] by blast
  let ?h' = "h[internal u := buf']"
  have a: "assign strict u (idx i) val h = (Inr (), ?h')"
    using assign_in_bounds [OF assms(4,5)] w(1) by simp
  have wfv: "wf v ?h'" using wf_update [OF assms(2), of buf'] w(2) assms(3) by simp
  have "?h' ! internal v = buf'" using r(1) assms(3) by simp
  then have "proxy_get v (idx j) ?h' = Inr (Number (if lowbit val then 1 else 0))"
    using proxy_get_in_bounds [OF wfv assms(6,7)] w(3) r(2) assms(8) by simp
  with a show ?thesis by blast
qed

lemma lowbit_01: "w = 0 \<or> w = 1 \<Longrightarrow> (if lowbit (Number w) then 1 else 0) = w"
  by (auto simp add: lowbit_Number)

text \<open>
  Claim C2. For a vector \<open>a\<close> and \<open>0 \<le> x \<le> y \<le> length a\<close>,
  \<open>b = a.subarray(x, y)\<close> is built on the buffer of \<open>a\<close> with the window moved by
  \<open>x\<close>, and the heap is not changed. A value 0 or 1 written through \<open>b\<close> at
  \<open>k < y - x\<close> is read through \<open>a\<close> at \<open>x + k\<close>, and one written through \<open>a\<close> at
  \<open>x + k\<close> is read through \<open>b\<close> at \<open>k\<close>.
\<close>

theorem subarray_shares_buffer:
  assumes "wf a h" "0 \<le> x" "x \<le> y" "y \<le> bitLength a" "0 \<le> k" "k < y - x" "w = 0 \<or> w = 1"
  shows "\<exists>b. subarray a (Some x) (Some y) h = (Inr b, h)
           \<and> internal b = internal a \<and> bitOffset b = bitOffset a + x \<and> bitLength b = y - x
           \<and> (\<exists>h'. assign strict b (idx k) (Number w) h = (Inr (), h')
                    \<and> proxy_get a (idx (x + k)) h' = Inr (Number w))
           \<and> (\<exists>h'. assign strict a (idx (x + k)) (Number w) h = (Inr (), h')
                    \<and> proxy_get b (idx k) h' = Inr (Number w))"
proof -
  let ?b = "\<lparr>bitOffset = bitOffset a + x, bitLength = y - x, internal = internal a\<rparr>"
  have s: "subarray a (Some x) (Some y) h = (Inr ?b, h)"
    by (rule subarray_in_range [OF assms(1-4)])
  have wfb: "wf ?b h" using assms(1-4) by (simp add: wf_def)
  have xk: "0 \<le> x + k" "x + k < bitLength a" using assms by auto
  have kb: "0 \<le> k" "k < bitLength ?b" using assms by auto
  have "\<exists>h'. assign strict ?b (idx k) (Number w) h = (Inr (), h')
           \<and> proxy_get a (idx (x + k)) h' = Inr (Number (if lowbit (Number w) then 1 else 0))"
    by (rule write_then_read [OF wfb assms(1) _ kb xk]) simp_all
  then have ba: "\<exists>h'. assign strict ?b (idx k) (Number w) h = (Inr (), h')
           \<and> proxy_get a (idx (x + k)) h' = Inr (Number w)"
    by (simp only: lowbit_01 [OF assms(7)])
  have "\<exists>h'. assign strict a (idx (x + k)) (Number w) h = (Inr (), h')
           \<and> proxy_get ?b (idx k) h' = Inr (Number (if lowbit (Number w) then 1 else 0))"
    by (rule write_then_read [OF assms(1) wfb _ xk kb]) simp_all
  then have ab: "\<exists>h'. assign strict a (idx (x + k)) (Number w) h = (Inr (), h')
           \<and> proxy_get ?b (idx k) h' = Inr (Number w)"
    by (simp only: lowbit_01 [OF assms(7)])
  show ?thesis using s ba ab by (intro exI [of _ ?b]) simp
qed

theorem subarray_shares_buffer_witness:
  "wf \<lparr>bitOffset = 0, bitLength = 8, internal = 0\<rparr> [[0]]
   \<and> (0::int) \<le> 2 \<and> (2::int) \<le> 6 \<and> 6 \<le> bitLength \<lparr>bitOffset = 0, bitLength = 8, internal = 0\<rparr>
   \<and> (0::int) \<le> 1 \<and> (1::int) < 6 - 2 \<and> ((1::int) = 0 \<or> (1::int) = 1)
   \<and> (\<exists>b. subarray \<lparr>bitOffset = 0, bitLength = 8, internal = 0\<rparr> (Some 2) (Some 6) [[0]] = (Inr b, [[0]])
           \<and> internal b = 0 \<and> bitOffset b = 2 \<and> bitLength b = 4
           \<and> (\<exists>h'. assign True b (idx 1) (Number 1) [[0]] = (Inr (), h')
                    \<and> proxy_get \<lparr>bitOffset = 0, bitLength = 8, internal = 0\<rparr> (idx 3) h' = Inr (Number 1))
           \<and> (\<exists>h'. assign True \<lparr>bitOffset = 0, bitLength = 8, internal = 0\<rparr> (idx 3) (Number 1) [[0]] = (Inr (), h')
                    \<and> proxy_get b (idx 1) h' = Inr (Number 1)))"
proof -
  have w: "wf \<lparr>bitOffset = 0, bitLength = 8, internal = 0\<rparr> [[0]]" by (simp add: wf_def)
  show ?thesis
    using w subarray_shares_buffer [OF w, of 2 6 1 1 True] by simp
qed

section \<open>Construction from elements\<close>

lemma le_8_ceil8: "n \<le> 8 * ceil8 n"
  by (simp add: ceil8_def)

lemma from_items_ok:
  "\<exists>buf'. from_items xs h =
            (Inr \<lparr>bitOffset = 0, bitLength = int (length xs), internal = length h\<rparr>, h @ [buf'])
         \<and> length buf' = nat (ceil8 (int (length xs)))
         \<and> (\<forall>j\<ge>0. j < int (length xs) \<longrightarrow> bit_of buf' j = lowbit (xs ! nat j))"
proof -
  let ?z = "replicate (nat (ceil8 (int (length xs)))) (0 :: byte)"
  let ?h1 = "h @ [?z]"
  have r: "length h < length ?h1" "(0::int) \<le> 0"
       "0 + int (length xs) \<le> 8 * int (length (?h1 ! length h))"
    using le_8_ceil8 [of "int (length xs)"] by simp_all
  obtain buf' where b: "init_loop (length h) 0 xs ?h1 = (Inr (), ?h1[length h := buf'])"
      "length buf' = length (?h1 ! length h)"
      "\<forall>j\<ge>0. bit_of buf' j =
         (if 0 \<le> j \<and> j < 0 + int (length xs) then lowbit (xs ! nat (j - 0))
          else bit_of (?h1 ! length h) j)"
    using init_loop_ok [OF r] by blast
  have "from_items xs h =
            (Inr \<lparr>bitOffset = 0, bitLength = int (length xs), internal = length h\<rparr>, h @ [buf'])"
    using b(1) by (simp add: from_items_def new_ArrayBuffer_def)
  moreover have "length buf' = nat (ceil8 (int (length xs)))" using b(2) by simp
  moreover have "\<forall>j\<ge>0. j < int (length xs) \<longrightarrow> bit_of buf' j = lowbit (xs ! nat j)"
    using b(3) by simp
  ultimately show ?thesis by blast
qed

text \<open>
  Claim C8. Constructing a vector from a sequence of integers 0 and 1 (an array-like or
  an iterable) succeeds, the vector's length is the length of the sequence, and reading
  all elements in order gives the sequence back.
\<close>

theorem construct_then_read_back:
  assumes "set ys \<subseteq> {0, 1}"
      "src = ArrayLike (map Number ys) \<or> src = Iterable (map Number ys)"
  shows "\<exists>v h'. Uint1Array src None None h = (Inr v, h')
           \<and> length_of v = int (length ys)
           \<and> spread v h' = Inr (map Number ys)"
proof -
  let ?xs = "map Number ys"
  let ?v = "\<lparr>bitOffset = 0, bitLength = int (length ?xs), internal = length h\<rparr>"
  obtain buf' where b: "from_items ?xs h = (Inr ?v, h @ [buf'])"
      "length buf' = nat (ceil8 (int (length ?xs)))"
      "\<forall>j\<ge>0. j < int (length ?xs) \<longrightarrow> bit_of buf' j = lowbit (?xs ! nat j)"
    using from_items_ok [of ?xs h] by blast
  have c: "Uint1Array src None None h = (Inr ?v, h @ [buf'])"
    using assms(2) b(1) by (auto simp add: Uint1Array_def)
  have wfv: "wf ?v (h @ [buf'])"
    using le_8_ceil8 [of "int (length ?xs)"] b(2) by (simp add: wf_def)
  have el: "\<And>i. 0 \<le> i \<Longrightarrow> i < int (length ys) \<Longrightarrow>
          Number (if bit_of buf' i then 1 else 0) = ?xs ! nat i"
  proof -
    fix i :: int
    assume i: "0 \<le> i" "i < int (length ys)"
    then have "ys ! nat i \<in> set ys" by simp
    then have "ys ! nat i = 0 \<or> ys ! nat i = 1" using assms(1) by auto
    then have "(if lowbit (Number (ys ! nat i)) then 1 else 0) = ys ! nat i"
      by (rule lowbit_01)
    then show "Number (if bit_of buf' i then 1 else 0) = ?xs ! nat i"
      using b(3) i by simp
  qed
  have "spread ?v (h @ [buf']) =
          Inr (map (\<lambda>i. Number (if bit_of buf' i then 1 else 0)) [0..int (length ?xs) - 1])"
    using spread_wf [OF wfv] by simp
  also have "map (\<lambda>i. Number (if bit_of buf' i then 1 else 0)) [0..int (length ?xs) - 1]
           = map (\<lambda>i. ?xs ! nat i) [0..int (length ?xs) - 1]"
    by (intro map_cong) (simp_all add: el)
  also have "\<dots> = ?xs" by (rule map_nth_upto)
  finally have "spread ?v (h @ [buf']) = Inr ?xs" .
  with c show ?thesis by (intro exI [of _ ?v] exI [of _ "h @ [buf']"]) (simp add: length_of_def)
qed

theorem construct_then_read_back_witness:
  "set [1, 0, 1, 1, 0 :: int] \<subseteq> {0, 1}
   \<and> (\<exists>v h'. Uint1Array (ArrayLike (map Number [1, 0, 1, 1, 0])) None None [] = (Inr v, h')
           \<and> length_of v = int (length [1, 0, 1, 1, 0 :: int])
           \<and> spread v h' = Inr (map Number [1, 0, 1, 1, 0]))"
  using construct_then_read_back [of "[1, 0, 1, 1, 0]" "ArrayLike (map Number [1, 0, 1, 1, 0])" "[]"]
  by simp

section \<open>Sorting\<close>

lemma insert_by_default: "insert_by (\<lambda>a b. a - b) x ys = insort x ys"
  by (induction ys) simp_all

lemma numbers_of_map_Number: "[n. Number n \<leftarrow> map Number ys] = ys"
  by (induction ys) simp_all

lemma Array_sort_default: "Array_sort (\<lambda>a b. a - b) (map Number ys) = map Number (sort ys)"
proof -
  have "insert_by (\<lambda>a b. a - b) = insort" by (intro ext) (rule insert_by_default)
  moreover have "filter (\<lambda>x. x = Undefined) (map Number ys) = []" by (induction ys) simp_all
  ultimately show ?thesis
    unfolding Array_sort_def numbers_of_map_Number by (simp add: sort_key_def)
qed

text \<open>
  Claim C9. \<open>sort()\<close> without a comparator works in place: it returns the vector
  itself, allocates nothing, and afterwards the elements are the previous elements, all
  0 or 1, in non-decreasing order (the 0s before the 1s). For
  \<open>Uint1Array.of(1,0,1,0)\<close> this gives \<open>[0,0,1,1]\<close>.
\<close>

theorem sort_default_ascending:
  assumes "wf v h"
  shows "\<exists>xs ys h'. spread v h = Inr (map Number xs) \<and> set xs \<subseteq> {0, 1}
           \<and> sort_method v None h = (Inr v, h') \<and> length h' = length h
           \<and> spread v h' = Inr (map Number ys) \<and> sorted ys \<and> mset ys = mset xs"
proof -
  define n where "n = bitLength v"
  define xs where "xs = map (\<lambda>i. if bit_of (h ! internal v) (i + bitOffset v) then 1 else (0::int)) [0..n - 1]"
  let ?zs = "map Number (sort xs)"
  have n0: "0 \<le> n" using assms by (simp add: wf_def n_def)
  have len: "int (length ?zs) = n" using n0 by (simp add: xs_def)
  have rd: "spread v h = Inr (map Number xs)"
    using spread_wf [OF assms] by (simp add: xs_def n_def comp_def)
  have bits: "set xs \<subseteq> {0, 1}" by (auto simp add: xs_def)
  obtain buf' where w: "set_method v ?zs (Some 0) h = (Inr (), h[internal v := buf'])"
      "length buf' = length (h ! internal v)"
      "\<forall>j\<ge>0. bit_of buf' j =
          (if 0 + bitOffset v \<le> j \<and> j < 0 + bitOffset v + int (length ?zs)
           then lowbit (?zs ! nat (j - (0 + bitOffset v)))
           else bit_of (h ! internal v) j)"
    using set_method_in_range [OF assms, of 0 ?zs] len n_def by auto
  let ?h' = "h[internal v := buf']"
  have srt: "sort_method v None h = (Inr v, ?h')"
    using rd w(1) by (simp add: sort_method_def Array_sort_default set_method_None)
  have wf': "wf v ?h'" by (rule wf_update [OF assms w(2)])
  have iv: "internal v < length h" "0 \<le> bitOffset v" using assms by (simp_all add: wf_def)
  have el: "\<And>i. 0 \<le> i \<Longrightarrow> i < n \<Longrightarrow>
          Number (if bit_of buf' (i + bitOffset v) then 1 else 0) = ?zs ! nat i"
  proof -
    fix i :: int
    assume i: "0 \<le> i" "i < n"
    then have lt: "nat i < length (sort xs)" using len by simp
    then have "sort xs ! nat i \<in> set (sort xs)" by (rule nth_mem)
    then have "sort xs ! nat i = 0 \<or> sort xs ! nat i = 1" using bits by auto
    then have "(if lowbit (Number (sort xs ! nat i)) then 1 else 0) = sort xs ! nat i"
      by (rule lowbit_01)
    moreover have "bit_of buf' (i + bitOffset v) = lowbit (?zs ! nat i)"
      using w(3) i iv(2) len by simp
    ultimately show "Number (if bit_of buf' (i + bitOffset v) then 1 else 0) = ?zs ! nat i"
      using lt by simp
  qed
  have "spread v ?h' =
          Inr (map (\<lambda>i. Number (if bit_of buf' (i + bitOffset v) then 1 else 0)) [0..n - 1])"
    using spread_wf [OF wf'] iv(1) by (simp add: n_def)
  also have "map (\<lambda>i. Number (if bit_of buf' (i + bitOffset v) then 1 else 0)) [0..n - 1]
           = map (\<lambda>i. ?zs ! nat i) [0..int (length ?zs) - 1]"
    unfolding len by (intro map_cong) (simp_all add: el)
  also have "\<dots> = ?zs" by (rule map_nth_upto)
  finally have rd': "spread v ?h' = Inr (map Number (sort xs))" .
  show ?thesis
    using rd bits srt rd'
    by (intro exI [of _ xs] exI [of _ "sort xs"] exI [of _ ?h']) simp
qed

lemma spread_1010: "spread \<lparr>bitOffset = 0, bitLength = 4, internal = 0\<rparr> [[0xA0]]
         = Inr (map Number [1, 0, 1, 0])"
  by (simp add: spread_def proxy_get_def idx_def getUint1_def getUint8_def js_shr_def js_rem_def upto.simps)

theorem sort_default_ascending_witness:
  "wf \<lparr>bitOffset = 0, bitLength = 4, internal = 0\<rparr> [[0xA0]]
   \<and> of_items [Number 1, Number 0, Number 1, Number 0] [] =
         (Inr \<lparr>bitOffset = 0, bitLength = 4, internal = 0\<rparr>, [[0xA0]])
   \<and> (\<exists>h'. sort_method \<lparr>bitOffset = 0, bitLength = 4, internal = 0\<rparr> None [[0xA0]]
              = (Inr \<lparr>bitOffset = 0, bitLength = 4, internal = 0\<rparr>, h')
          \<and> spread \<lparr>bitOffset = 0, bitLength = 4, internal = 0\<rparr> h'
              = Inr (map Number [0, 0, 1, 1]))"
proof -
  let ?v = "\<lparr>bitOffset = 0, bitLength = 4, internal = 0\<rparr>"
  have w: "wf ?v [[0xA0]]" by (simp add: wf_def)
  obtain xs ys h' where r: "spread ?v [[0xA0]] = Inr (map Number xs)"
      "sort_method ?v None [[0xA0]] = (Inr ?v, h')"
      "spread ?v h' = Inr (map Number ys)" "sorted ys" "mset ys = mset xs"
    using sort_default_ascending [OF w] by blast
  have "map Number xs = map Number [1, 0, 1, 0]" using r(1) spread_1010 by simp
  then have "xs = [1, 0, 1, 0]" by (auto simp add: map_eq_Cons_conv)
  then have "mset ys = mset [1, 0, 1, 0 :: int]" using r(5) by simp
  then have "sort [1, 0, 1, 0] = ys" using r(4) by (intro properties_for_sort)
  then have "ys = [0, 0, 1, 1]" by simp
  then show ?thesis using w of_1010 r(2,3) by auto
qed

section \<open>The invariant of construction\<close>

lemma from_length_wf:
  assumes "from_length n h = (Inr v, h')"
  shows "wf v h'"
  using assms le_8_ceil8 [of n]
  by (auto simp add: from_length_def new_ArrayBuffer_def wf_def split: if_splits)

lemma from_buffer_wf:
  assumes "from_buffer (ArrayBuffer a) (int (length (h ! a))) off len h = (Inr v, h')" "a < length h"
  shows "wf v h' \<and> h' = h \<and> internal v = a"
  using assms by (auto simp add: from_buffer_def wf_def Let_def split: if_splits)

lemma from_buffer_Vector:
  "fst (from_buffer (Vector a) n off len h) \<noteq> Inr v"
  by (simp add: from_buffer_def Let_def)

lemma Uint1Array_wf:
  assumes "Uint1Array src off len h = (Inr v, h')" "\<forall>a. src = ArrayBuffer a \<longrightarrow> a < length h"
  shows "wf v h'"
proof (cases src)
  case NoArg
  then show ?thesis using assms(1) from_length_wf by (simp add: Uint1Array_def)
next
  case (Length n)
  then show ?thesis using assms(1) from_length_wf by (simp add: Uint1Array_def)
next
  case (ArrayBuffer a)
  then have "from_buffer (ArrayBuffer a) (int (length (h ! a))) off len h = (Inr v, h')"
    using assms(1) by (simp add: Uint1Array_def)
  moreover have "a < length h" using assms(2) ArrayBuffer by simp
  ultimately show ?thesis using from_buffer_wf by blast
next
  case (ArrayLike xs)
  obtain buf' where b: "from_items xs h =
            (Inr \<lparr>bitOffset = 0, bitLength = int (length xs), internal = length h\<rparr>, h @ [buf'])"
         "length buf' = nat (ceil8 (int (length xs)))"
    using from_items_ok [of xs h] by blast
  then show ?thesis
    using assms(1) ArrayLike le_8_ceil8 [of "int (length xs)"] by (auto simp add: Uint1Array_def wf_def)
next
  case (Iterable xs)
  obtain buf' where b: "from_items xs h =
            (Inr \<lparr>bitOffset = 0, bitLength = int (length xs), internal = length h\<rparr>, h @ [buf'])"
         "length buf' = nat (ceil8 (int (length xs)))"
    using from_items_ok [of xs h] by blast
  then show ?thesis
    using assms(1) Iterable le_8_ceil8 [of "int (length xs)"] by (auto simp add: Uint1Array_def wf_def)
next
  case (Vector a)
  then show ?thesis
    using assms(1) from_buffer_Vector [of a "byteLength a" off len h v] by (simp add: Uint1Array_def)
qed

text \<open>
  What the two failing cases above are instances of: \<open>slice\<close> returns no vector for
  any vector and any arguments, and \<open>subarray\<close> succeeds whenever \<open>begin\<close> does not
  exceed the length.
\<close>

lemma subarray_result:
  assumes "subarray v b e h = (Inr s, h')"
  shows "0 \<le> bitLength s \<and> internal s = internal v \<and> h' = h"
  using assms
  by (auto simp add: subarray_def Uint1Array_def from_buffer_def Let_def split: if_splits)

lemma slice_never_returns: "fst (slice v b e h) \<noteq> Inr r"
proof (cases "subarray v b e h")
  case (Pair res h')
  show ?thesis
  proof (cases res)
    case (Inl err)
    then show ?thesis using Pair by (simp add: slice_def)
  next
    case (Inr s)
    then have "0 \<le> bitLength s" using Pair subarray_result by blast
    then have "0 \<le> byteLength s" by (rule byteLength_nonneg)
    then show ?thesis using Pair Inr by (simp add: slice_def Uint1Array_def from_buffer_def)
  qed
qed

lemma subarray_begin_within:
  assumes "wf v h" "b \<le> bitLength v"
  shows "\<exists>s. subarray v (Some b) e h = (Inr s, h) \<and> internal s = internal v \<and> wf s h"
  using assms
  by (cases e) (auto simp add: subarray_def Uint1Array_def from_buffer_def Let_def wf_def)

end
